theory Spec2Isabelle
  imports Main "HOL-Library.Char_ord" "HOL-Library.List_Lexorder"
begin

section \<open>Python values, strings and exceptions\<close>

text \<open>
  A Python \<open>str\<close> is modelled as a \<open>string\<close>: the character with code \<open>n\<close> stands for
  the code point \<open>n\<close>, so the model covers the strings whose code points are below 256.
  The character classes below are the ones of CPython for these code points:
  \<open>str.isspace\<close> (which \<open>str.split()\<close> and the regular expression class \<open>\s\<close> use),
  the word characters of \<open>\w\<close> and \<open>\b\<close> (alphanumerics and the underscore),
  the line boundaries of \<open>str.splitlines\<close>, and \<open>str.lower\<close>.

  An exception is a value of type \<open>error\<close>; a function that can raise returns
  \<open>error + 'a\<close>, with \<open>Inl\<close> for the exception.
\<close>

datatype error =
    TypeError
  | KeyError string
  | FileNotFoundError string
  | LibraryError string

definition is_space :: "char \<Rightarrow> bool" where
  "is_space c =
     (let n = (of_char c :: nat)
      in (9 \<le> n \<and> n \<le> 13) \<or> (28 \<le> n \<and> n \<le> 32) \<or> n = 133 \<or> n = 160)"

definition is_word :: "char \<Rightarrow> bool" where
  "is_word c =
     (let n = (of_char c :: nat)
      in (48 \<le> n \<and> n \<le> 57) \<or> (65 \<le> n \<and> n \<le> 90) \<or> n = 95 \<or> (97 \<le> n \<and> n \<le> 122)
         \<or> n = 170 \<or> n = 178 \<or> n = 179 \<or> n = 181 \<or> n = 185 \<or> n = 186
         \<or> (188 \<le> n \<and> n \<le> 190) \<or> (192 \<le> n \<and> n \<le> 214)
         \<or> (216 \<le> n \<and> n \<le> 246) \<or> 248 \<le> n)"

definition is_linebreak :: "char \<Rightarrow> bool" where
  "is_linebreak c =
     (let n = (of_char c :: nat)
      in (10 \<le> n \<and> n \<le> 13) \<or> (28 \<le> n \<and> n \<le> 30) \<or> n = 133)"

definition lower_char :: "char \<Rightarrow> char" where
  "lower_char c =
     (let n = (of_char c :: nat)
      in if (65 \<le> n \<and> n \<le> 90) \<or> (192 \<le> n \<and> n \<le> 222 \<and> n \<noteq> 215)
         then char_of (n + 32) else c)"

text \<open>\<open>str.lower\<close>.\<close>

definition lower :: "string \<Rightarrow> string" where
  "lower s = map lower_char s"

text \<open>\<open>sep.join(xs)\<close>.\<close>

fun join :: "string \<Rightarrow> string list \<Rightarrow> string" where
  "join sep [] = []"
| "join sep [x] = x"
| "join sep (x # y # ys) = x @ sep @ join sep (y # ys)"

text \<open>
  \<open>s.split(sep)\<close> with a one-character separator: every occurrence of the separator
  cuts, and empty pieces are kept (\<open>''.split(' ')\<close> is \<open>['']\<close>).
\<close>

fun split_sep :: "char \<Rightarrow> string \<Rightarrow> string list" where
  "split_sep sep [] = [[]]"
| "split_sep sep (c # cs) =
     (if c = sep then [] # split_sep sep cs
      else (case split_sep sep cs of
              [] \<Rightarrow> [[c]]
            | w # ws \<Rightarrow> (c # w) # ws))"

text \<open>
  \<open>s.split()\<close> with no separator: the pieces are the maximal runs of characters that are
  not whitespace; there are no empty pieces.
\<close>

function split_ws :: "string \<Rightarrow> string list" where
  "split_ws s =
     (case dropWhile is_space s of
        [] \<Rightarrow> []
      | c # cs \<Rightarrow>
          takeWhile (\<lambda>x. \<not> is_space x) (c # cs)
            # split_ws (dropWhile (\<lambda>x. \<not> is_space x) (c # cs)))"
  by pat_completeness auto
termination
proof (relation "measure length", goal_cases)
  case 1
  show ?case by simp
next
  case (2 s c cs)
  have "length (dropWhile (\<lambda>x. \<not> is_space x) cs) \<le> length cs"
    by (rule length_dropWhile_le)
  moreover have "length (c # cs) \<le> length s"
    using 2 length_dropWhile_le [of is_space s] by simp
  moreover have "\<not> is_space c"
    using 2 hd_dropWhile [of is_space s] by auto
  ultimately show ?case by simp
qed

declare split_ws.simps [simp del]

text \<open>What a piece of \<open>s.split()\<close> is: not empty, and without whitespace.\<close>

definition token :: "string \<Rightarrow> bool" where
  "token w = (w \<noteq> [] \<and> list_all (\<lambda>c. \<not> is_space c) w)"


text \<open>
  \<open>s.splitlines()\<close>: the text is cut after every line boundary (\<open>\r\n\<close> counts as
  one), the boundaries are dropped, and a boundary at the very end opens no further line.
\<close>

fun splitlines_from :: "string \<Rightarrow> string \<Rightarrow> string list" where
  "splitlines_from cur [] = (if cur = [] then [] else [cur])"
| "splitlines_from cur [c] = (if is_linebreak c then [cur] else [cur @ [c]])"
| "splitlines_from cur (c # d # cs) =
     (if is_linebreak c
      then (if c = char_of (13 :: nat) \<and> d = char_of (10 :: nat)
            then cur # splitlines_from [] cs
            else cur # splitlines_from [] (d # cs))
      else splitlines_from (cur @ [c]) (d # cs))"

definition splitlines :: "string \<Rightarrow> string list" where
  "splitlines s = splitlines_from [] s"

text \<open>
  A value pandas holds in a cell, of the input \<open>Series\<close> or of a table read by
  \<open>read\_csv\<close>: a string, or a value that is not a string (\<open>None\<close>, the \<open>NaN\<close>
  pandas stores for a missing cell, a number of a numeric column).
\<close>

datatype cell = Str string | NotStr

text \<open>
  \<open>gensim.utils.to_unicode\<close>: a \<open>str\<close> is returned as it is; anything else goes to
  \<open>str(text, encoding, errors=errors)\<close>, which raises \<open>TypeError\<close> for a value
  that is not bytes-like.
\<close>

fun to_unicode :: "cell \<Rightarrow> error + string" where
  "to_unicode (Str s) = Inr s"
| "to_unicode NotStr = Inl TypeError"


section \<open>Regular expressions: \<open>re.sub\<close> on an alternation of literals\<close>

text \<open>
  The patterns the synonym mapper builds are alternations whose alternatives are
  sequences of two kinds of atoms: the assertion \<open>\b\<close> and a literal character
  (\<open>re.escape\<close> makes every character of a key literal). A compiled pattern is the list
  of its alternatives, in the order they are written.

  Matching is at a position of the text, given as the character before the position
  (if any) and the text from the position on. \<open>\b\<close> holds where exactly one of the two
  neighbours is a word character; the start and the end of the text count as non-word.
\<close>

datatype atom = WordBoundary | Lit char

type_synonym regex = "atom list list"

definition word_opt :: "char option \<Rightarrow> bool" where
  "word_opt c = (case c of None \<Rightarrow> False | Some x \<Rightarrow> is_word x)"

definition at_boundary :: "char option \<Rightarrow> string \<Rightarrow> bool" where
  "at_boundary prev rest =
     (word_opt prev \<noteq> word_opt (case rest of [] \<Rightarrow> None | c # _ \<Rightarrow> Some c))"

text \<open>One alternative at one position: the matched text and the text after it.\<close>

fun match_alt :: "atom list \<Rightarrow> char option \<Rightarrow> string \<Rightarrow> (string \<times> string) option" where
  "match_alt [] prev rest = Some ([], rest)"
| "match_alt (WordBoundary # as) prev rest =
     (if at_boundary prev rest then match_alt as prev rest else None)"
| "match_alt (Lit c # as) prev [] = None"
| "match_alt (Lit c # as) prev (d # rest) =
     (if c = d
      then (case match_alt as (Some d) rest of
              None \<Rightarrow> None
            | Some (m, rest') \<Rightarrow> Some (d # m, rest'))
      else None)"

text \<open>
  The alternation at one position: the first alternative that matches wins. Right after
  an empty match the engine must advance: at that position an empty match is rejected
  and the next alternative is tried.
\<close>

fun match_first :: "regex \<Rightarrow> bool \<Rightarrow> char option \<Rightarrow> string \<Rightarrow> (string \<times> string) option" where
  "match_first [] must_advance prev rest = None"
| "match_first (a # as) must_advance prev rest =
     (case match_alt a prev rest of
        None \<Rightarrow> match_first as must_advance prev rest
      | Some (m, rest') \<Rightarrow>
          if must_advance \<and> m = [] then match_first as must_advance prev rest
          else Some (m, rest'))"

text \<open>
  The search for the leftmost match from a position on: the text skipped, the match and
  the text after it. The end of the text is a position too.
\<close>

fun search :: "regex \<Rightarrow> bool \<Rightarrow> char option \<Rightarrow> string \<Rightarrow> (string \<times> string \<times> string) option" where
  "search r must_advance prev [] =
     (case match_first r must_advance prev [] of
        Some (m, rest') \<Rightarrow> Some ([], m, rest')
      | None \<Rightarrow> None)"
| "search r must_advance prev (c # cs) =
     (case match_first r must_advance prev (c # cs) of
        Some (m, rest') \<Rightarrow> Some ([], m, rest')
      | None \<Rightarrow>
          (case search r False (Some c) cs of
             None \<Rightarrow> None
           | Some (skipped, m, rest') \<Rightarrow> Some (c # skipped, m, rest')))"

definition last_char :: "char option \<Rightarrow> string \<Rightarrow> char option" where
  "last_char prev s = (if s = [] then prev else Some (last s))"

lemma match_alt_length: "match_alt a prev rest = Some (m, rest') \<Longrightarrow> rest = m @ rest'"
  by (induction a prev rest arbitrary: m rest' rule: match_alt.induct)
     (auto split: if_splits option.splits)

lemma match_first_length:
  "match_first r adv prev rest = Some (m, rest') \<Longrightarrow> rest = m @ rest' \<and> (adv \<longrightarrow> m \<noteq> [])"
  by (induction r) (auto split: if_splits option.splits dest: match_alt_length)

lemma search_length:
  "search r adv prev rest = Some (skipped, m, rest') \<Longrightarrow>
     rest = skipped @ m @ rest' \<and> (adv \<longrightarrow> skipped @ m \<noteq> [])"
proof (induction rest arbitrary: adv prev skipped m rest')
  case Nil
  then show ?case
    by (auto split: option.splits dest: match_first_length)
next
  case (Cons c cs)
  show ?case
  proof (cases "match_first r adv prev (c # cs)")
    case None
    with Cons.prems obtain s'
      where s: "search r False (Some c) cs = Some (s', m, rest')" "skipped = c # s'"
      by (auto split: option.splits)
    from Cons.IH [OF s(1)] s(2) show ?thesis by simp
  next
    case (Some a)
    with Cons.prems show ?thesis
      by (cases a) (auto dest: match_first_length)
  qed
qed

text \<open>
  The loop of \<open>re.sub(pattern, repl, text)\<close> with a function \<open>repl\<close>: search the next
  match, put the skipped text on the list of pieces, call \<open>repl\<close> on the match (an
  exception of \<open>repl\<close> leaves \<open>re.sub\<close>) and put what it returns on the list, go on
  after the match; with no further match the rest of the text is the last piece.
  The loop ends: a match that is not empty shortens the text left, and after an empty
  match the next one is not at the same position.
\<close>

function sub_loop ::
  "regex \<Rightarrow> (string \<Rightarrow> error + cell) \<Rightarrow> bool \<Rightarrow> char option \<Rightarrow> string \<Rightarrow> error + cell list"
where
  "sub_loop r repl must_advance prev rest =
     (case search r must_advance prev rest of
        None \<Rightarrow> Inr [Str rest]
      | Some (skipped, m, rest') \<Rightarrow>
          (case repl m of
             Inl e \<Rightarrow> Inl e
           | Inr item \<Rightarrow>
               (case sub_loop r repl (m = []) (last_char prev (skipped @ m)) rest' of
                  Inl e \<Rightarrow> Inl e
                | Inr pieces \<Rightarrow> Inr (Str skipped # item # pieces))))"
  by pat_completeness auto
termination
proof (relation
    "measure (\<lambda>(r, repl, adv, prev, rest). 2 * length rest + (if adv then 0 else 1))",
    goal_cases)
  case 1
  then show ?case by simp
next
  case (2 r repl must_advance prev rest x2 skipped y m rest' v)
  then have "search r must_advance prev rest = Some (skipped, m, rest')" by simp
  from search_length [OF this] show ?case by (cases m; cases skipped) auto
qed

declare sub_loop.simps [simp del]

text \<open>
  At the end \<open>re.sub\<close> joins the pieces; a piece that is not a string (a value that
  \<open>repl\<close> returned) raises \<open>TypeError\<close> there, after every call of \<open>repl\<close>.
\<close>

fun join_pieces :: "cell list \<Rightarrow> error + string" where
  "join_pieces [] = Inr []"
| "join_pieces (Str s # pieces) =
     (case join_pieces pieces of
        Inl e \<Rightarrow> Inl e
      | Inr out \<Rightarrow> Inr (s @ out))"
| "join_pieces (NotStr # pieces) = Inl TypeError"

definition re_sub :: "regex \<Rightarrow> (string \<Rightarrow> error + cell) \<Rightarrow> string \<Rightarrow> error + string" where
  "re_sub r repl s =
     (case sub_loop r repl False None s of
        Inl e \<Rightarrow> Inl e
      | Inr pieces \<Rightarrow> join_pieces pieces)"

text \<open>The loop from any position on, with its pieces joined.\<close>

definition sub_text ::
  "regex \<Rightarrow> (string \<Rightarrow> error + cell) \<Rightarrow> bool \<Rightarrow> char option \<Rightarrow> string \<Rightarrow> error + string"
where
  "sub_text r repl adv prev rest =
     (case sub_loop r repl adv prev rest of
        Inl e \<Rightarrow> Inl e
      | Inr pieces \<Rightarrow> join_pieces pieces)"

section \<open>The synonym mapper\<close>

text \<open>
  The synonym table is the \<open>dict\<close> that \<open>to\_dict\<close> makes of a table pandas read:
  its keys and values are cells, strings or not. It is an association list in insertion
  order, which is the order \<open>for s in table\<close> visits the keys; \<open>table[k]\<close> raises
  \<open>KeyError\<close> for a key that is absent.
\<close>

type_synonym table = "(cell \<times> cell) list"

definition getitem :: "table \<Rightarrow> string \<Rightarrow> error + cell" where
  "getitem t k = (case map_of t (Str k) of None \<Rightarrow> Inl (KeyError k) | Some v \<Rightarrow> Inr v)"

text \<open>
  \<open>re.escape(s) for s in table\<close>: \<open>re.escape\<close> makes every character of a string
  literal, and raises \<open>TypeError\<close> for a key that is neither a string nor bytes.
\<close>

fun escape_keys :: "cell list \<Rightarrow> error + string list" where
  "escape_keys [] = Inr []"
| "escape_keys (Str s # keys) =
     (case escape_keys keys of
        Inl e \<Rightarrow> Inl e
      | Inr escaped \<Rightarrow> Inr (s # escaped))"
| "escape_keys (NotStr # keys) = Inl TypeError"

text \<open>
  The pattern \<open>'|'.join(r'\b%s\b' % ... )\<close>, compiled: one alternative
  \<open>\b key \b\<close> for each key. Joining no string at all gives the empty pattern, which
  is one alternative with no atom.
\<close>

definition compile_keys :: "string list \<Rightarrow> regex" where
  "compile_keys keys =
     (if keys = [] then [[]]
      else map (\<lambda>s. [WordBoundary] @ map Lit s @ [WordBoundary]) keys)"

text \<open>\<open>FdcPreprocessManager._map_synonyms\<close> (fdc\_preprocess.py, lines 51 to 53).\<close>

definition map_synonyms :: "string \<Rightarrow> table \<Rightarrow> error + string" where
  "map_synonyms s t =
     (case escape_keys (map fst t) of
        Inl e \<Rightarrow> Inl e
      | Inr escaped \<Rightarrow>
          (let regex_str = compile_keys escaped
           in re_sub regex_str (\<lambda>x. getitem t x) s))"

text \<open>
  What the contract of the mapper says in words, as a function of its own, for a table
  of strings given as a list of pairs (key, value). An occurrence of a key at a position
  of the text is a whole word when the character before it (if any) is not a word
  character and the character after it (if any) is not a word character. The text is
  read from left to right: where a key occurs as a whole word (the first such key of the
  table, if there are several), the value of the key is written and reading goes on
  after the occurrence; otherwise the character is copied.
\<close>

definition whole_word_at :: "char option \<Rightarrow> string \<Rightarrow> string \<Rightarrow> bool" where
  "whole_word_at prev rest k =
     (k \<noteq> [] \<and> \<not> word_opt prev \<and> take (length k) rest = k
      \<and> (case drop (length k) rest of [] \<Rightarrow> True | c # _ \<Rightarrow> \<not> is_word c))"

function replace_whole_words_from ::
  "(string \<times> string) list \<Rightarrow> char option \<Rightarrow> string \<Rightarrow> string" where
  "replace_whole_words_from kvs prev [] = []"
| "replace_whole_words_from kvs prev (c # cs) =
     (case find (whole_word_at prev (c # cs)) (map fst kvs) of
        None \<Rightarrow> c # replace_whole_words_from kvs (Some c) cs
      | Some k \<Rightarrow>
          (case map_of kvs k of None \<Rightarrow> k | Some v \<Rightarrow> v)
            @ replace_whole_words_from kvs (Some (last k)) (drop (length k) (c # cs)))"
  by pat_completeness auto
termination
proof (relation "measure (\<lambda>(kvs, prev, s). length s)", goal_cases)
  case 1
  show ?case by simp
next
  case (2 kvs prev c cs)
  show ?case by simp
next
  case (3 kvs prev c cs k)
  then have "whole_word_at prev (c # cs) k"
    by (auto simp: find_Some_iff)
  then have "k \<noteq> []" by (simp add: whole_word_at_def)
  then show ?case by (cases k) simp_all
qed

definition replace_whole_words :: "(string \<times> string) list \<Rightarrow> string \<Rightarrow> string" where
  "replace_whole_words kvs s = replace_whole_words_from kvs None s"

text \<open>A table of strings, and a key that begins and ends with a word character.\<close>

definition str_table :: "(string \<times> string) list \<Rightarrow> table" where
  "str_table kvs = map (\<lambda>(k, v). (Str k, Str v)) kvs"

definition edge_key :: "string \<Rightarrow> bool" where
  "edge_key k = (k \<noteq> [] \<and> is_word (hd k) \<and> is_word (last k))"

section \<open>The configuration wrapper (utils/config\_parser.py)\<close>

text \<open>
  The class \<open>ConfigParser\<close> wraps an object of Python's \<open>configparser\<close> module,
  read from the .ini file when the wrapper is made. The object is given by what its
  accessors return for a section and a key (each raises for a section or key that is
  absent or a text that is not of the type asked for); the type \<open>'f\<close> stands for
  Python's floats. The wrapper's methods take the key first and the section second.
\<close>

record 'f stdlib_config =
  section_item :: "string \<Rightarrow> string \<Rightarrow> error + string"
  std_getint :: "string \<Rightarrow> string \<Rightarrow> error + int"
  std_getboolean :: "string \<Rightarrow> string \<Rightarrow> error + bool"
  std_getfloat :: "string \<Rightarrow> string \<Rightarrow> error + 'f"

record 'f ConfigParser =
  config :: "'f stdlib_config"

definition getstr :: "'f ConfigParser \<Rightarrow> string \<Rightarrow> string \<Rightarrow> error + string" where
  "getstr self key section = section_item (config self) section key"

definition getint :: "'f ConfigParser \<Rightarrow> string \<Rightarrow> string \<Rightarrow> error + int" where
  "getint self key section = std_getint (config self) section key"

definition getbool :: "'f ConfigParser \<Rightarrow> string \<Rightarrow> string \<Rightarrow> error + bool" where
  "getbool self key section = std_getboolean (config self) section key"

definition getfloat :: "'f ConfigParser \<Rightarrow> string \<Rightarrow> string \<Rightarrow> error + 'f" where
  "getfloat self key section = std_getfloat (config self) section key"

section \<open>The files and the gensim library\<close>

text \<open>
  The file system is a map from paths to files. A file is given by what its reader
  returns: the text \<open>open(path).read()\<close> returns, the rows (from, to) of cells that
  \<open>pandas.read_csv\<close> finds in a synonym map, a pickled phrase model (of the type
  \<open>'m\<close> of gensim's models), or the rows (phrase, score) of a phrase dump. A path with
  no file raises \<open>FileNotFoundError\<close>; a file of another kind than the reader's is an
  error of the reading library. Writing a file is taken to succeed.
\<close>

datatype ('m, 'f) file_content =
    TextFile string
  | SynonymCsv "(cell \<times> cell) list"
  | ModelFile 'm
  | PhraseCsv "(string \<times> 'f) list"

type_synonym ('m, 'f) world = "string \<Rightarrow> ('m, 'f) file_content option"

definition open_read :: "('m, 'f) world \<Rightarrow> string \<Rightarrow> error + string" where
  "open_read w path =
     (case w path of
        None \<Rightarrow> Inl (FileNotFoundError path)
      | Some (TextFile s) \<Rightarrow> Inr s
      | Some _ \<Rightarrow> Inl (LibraryError ''not a text file''))"

definition read_csv :: "('m, 'f) world \<Rightarrow> string \<Rightarrow> error + (cell \<times> cell) list" where
  "read_csv w path =
     (case w path of
        None \<Rightarrow> Inl (FileNotFoundError path)
      | Some (SynonymCsv rows) \<Rightarrow> Inr rows
      | Some _ \<Rightarrow> Inl (LibraryError ''not a table with the columns from and to''))"

definition Phraser_load :: "('m, 'f) world \<Rightarrow> string \<Rightarrow> error + 'm" where
  "Phraser_load w path =
     (case w path of
        None \<Rightarrow> Inl (FileNotFoundError path)
      | Some (ModelFile m) \<Rightarrow> Inr m
      | Some _ \<Rightarrow> Inl (LibraryError ''not a phrase model''))"

text \<open>\<open>d[k] = v\<close> on a \<open>dict\<close>, and \<open>Series.to\_dict()\<close> of the rows of a table.\<close>

fun dict_set :: "table \<Rightarrow> cell \<Rightarrow> cell \<Rightarrow> table" where
  "dict_set [] k v = [(k, v)]"
| "dict_set ((k', v') # t) k v =
     (if k' = k then (k, v) # t else (k', v') # dict_set t k v)"

definition to_dict :: "(cell \<times> cell) list \<Rightarrow> table" where
  "to_dict rows = foldl (\<lambda>d (k, v). dict_set d k v) [] rows"

text \<open>
  The functions of gensim the manager calls and does not define are parameters: the
  default stop words (\<open>gpp.STOPWORDS\<close>, in the order \<open>list\<close> enumerates the
  frozenset), the four filters of \<open>gensim.parsing.preprocessing\<close>, the lemmatizer
  (whose items are the texts \<open>lemma/TAG\<close>), and of \<open>gensim.models.phrases\<close> the
  training of a model (\<open>Phrases(sentences, min\_count, threshold, max\_vocab\_size,
  progress\_per, scoring)\<close>), its application to a token sequence (\<open>model[x]\<close>) and
  \<open>export\_phrases\<close>.
\<close>

record ('m, 'f) gensim =
  STOPWORDS :: "string list"
  strip_punctuation :: "string \<Rightarrow> string"
  strip_multiple_whitespaces :: "string \<Rightarrow> string"
  strip_numeric :: "string \<Rightarrow> string"
  strip_short :: "string \<Rightarrow> int \<Rightarrow> string"
  lemmatize :: "string \<Rightarrow> error + string list"
  Phrases :: "string list list \<Rightarrow> int \<Rightarrow> 'f \<Rightarrow> int \<Rightarrow> int \<Rightarrow> string \<Rightarrow> error + 'm"
  apply_phrases :: "'m \<Rightarrow> string list \<Rightarrow> string list"
  export_phrases :: "'m \<Rightarrow> string list list \<Rightarrow> (string \<times> 'f) list"


section \<open>The preprocess manager (managers/fdc\_preprocess.py)\<close>

record 'f FdcPreprocessManager =
  configparser :: "'f ConfigParser"

text \<open>\<open>\_load\_synonym\_map\<close> (lines 43 to 49).\<close>

definition load_synonym_map ::
  "'f FdcPreprocessManager \<Rightarrow> string \<Rightarrow> ('m, 'f) world \<Rightarrow> error + table" where
  "load_synonym_map self section w =
     (case getstr (configparser self) ''synonym_map'' section of
        Inl e \<Rightarrow> Inl e
      | Inr path \<Rightarrow>
          (case read_csv w path of
             Inl e \<Rightarrow> Inl e
           | Inr pd_map \<Rightarrow> Inr (to_dict pd_map)))"

text \<open>
  \<open>\_generate\_custom\_stopwords\<close> (lines 55 to 94). The result is a frozenset, here
  a set. The calls of the logger change no result and are left out, here and below.
\<close>

definition generate_custom_stopwords ::
  "('m, 'f) gensim \<Rightarrow> 'f FdcPreprocessManager \<Rightarrow> string \<Rightarrow> ('m, 'f) world \<Rightarrow> error + string set"
where
  "generate_custom_stopwords lib self section w =
     (let my_stopwords = STOPWORDS lib
      in case getstr (configparser self) ''stopwords_to_add'' section of
           Inl e \<Rightarrow> Inl e
         | Inr to_add_filename \<Rightarrow>
        (case open_read w to_add_filename of
           Inl e \<Rightarrow> Inl e
         | Inr to_add_text \<Rightarrow>
        (let to_add_list = splitlines to_add_text
         in case getstr (configparser self) ''stopwords_to_remove'' section of
              Inl e \<Rightarrow> Inl e
            | Inr to_remove_filename \<Rightarrow>
           (case open_read w to_remove_filename of
              Inl e \<Rightarrow> Inl e
            | Inr to_remove_text \<Rightarrow>
           (let to_remove_list = splitlines to_remove_text;
                my_stopwords = my_stopwords @ to_add_list;
                my_stopwords = filter (\<lambda>x. x \<notin> set to_remove_list) my_stopwords
            in Inr (set my_stopwords))))))"

text \<open>\<open>\_custom\_remove\_stopwords\<close> (lines 96 to 108).\<close>

definition custom_remove_stopwords :: "cell \<Rightarrow> string set \<Rightarrow> error + string" where
  "custom_remove_stopwords s stopwords =
     (case to_unicode s of
        Inl e \<Rightarrow> Inl e
      | Inr s \<Rightarrow> Inr (join '' '' (filter (\<lambda>w. w \<notin> stopwords) (split_ws s))))"

text \<open>
  \<open>\_custom\_lemmatize\<close> (lines 110 to 115). \<open>re.sub(r'/[^\s]+', '', result)\<close>
  deletes every slash together with the run of characters other than whitespace that
  follows it, when that run is not empty.
\<close>

function strip_tags :: "string \<Rightarrow> string" where
  "strip_tags [] = []"
| "strip_tags (c # cs) =
     (if c = CHR ''/'' \<and> takeWhile (\<lambda>x. \<not> is_space x) cs \<noteq> []
      then strip_tags (dropWhile (\<lambda>x. \<not> is_space x) cs)
      else c # strip_tags cs)"
  by pat_completeness auto
termination
proof (relation "measure length", goal_cases)
  case 1
  show ?case by simp
next
  case (2 c cs)
  have "length (dropWhile (\<lambda>x. \<not> is_space x) cs) \<le> length cs"
    by (rule length_dropWhile_le)
  then show ?case by simp
next
  case (3 c cs)
  show ?case by simp
qed

definition custom_lemmatize :: "('m, 'f) gensim \<Rightarrow> string \<Rightarrow> error + string" where
  "custom_lemmatize lib s =
     (case lemmatize lib s of
        Inl e \<Rightarrow> Inl e
      | Inr result \<Rightarrow> Inr (strip_tags (join '' '' result)))"

text \<open>
  The filters are Python functions from text to text, collected in a list. Here a
  filter is a value that names the function and carries what the function closes over
  (the synonym table, the stop words, the minimal size); \<open>run_filter\<close> calls it.
\<close>

datatype filter_step =
    Lower
  | MapSynonyms table
  | StripPunctuation
  | StripMultipleWhitespaces
  | StripNumeric
  | RemoveStopwords "string set"
  | StripShort int
  | Lemmatize

fun run_filter :: "('m, 'f) gensim \<Rightarrow> filter_step \<Rightarrow> string \<Rightarrow> error + string" where
  "run_filter lib Lower x = Inr (lower x)"
| "run_filter lib (MapSynonyms map_table) x = map_synonyms x map_table"
| "run_filter lib StripPunctuation x = Inr (strip_punctuation lib x)"
| "run_filter lib StripMultipleWhitespaces x = Inr (strip_multiple_whitespaces lib x)"
| "run_filter lib StripNumeric x = Inr (strip_numeric lib x)"
| "run_filter lib (RemoveStopwords stopwords) x = custom_remove_stopwords (Str x) stopwords"
| "run_filter lib (StripShort minsize) x = Inr (strip_short lib x minsize)"
| "run_filter lib Lemmatize x = custom_lemmatize lib x"

text \<open>\<open>\_build\_custom\_filter\_list\<close> (lines 117 to 165).\<close>

definition build_custom_filter_list ::
  "('m, 'f) gensim \<Rightarrow> 'f FdcPreprocessManager \<Rightarrow> string \<Rightarrow> ('m, 'f) world
     \<Rightarrow> error + filter_step list"
where
  "build_custom_filter_list lib self section w =
     (let custom_filters = []
      in case getbool (configparser self) ''lower'' section of
           Inl e \<Rightarrow> Inl e
         | Inr b \<Rightarrow>
        (let custom_filters = (if b then custom_filters @ [Lower] else custom_filters)
         in case getbool (configparser self) ''map_synonym'' section of
              Inl e \<Rightarrow> Inl e
            | Inr b \<Rightarrow>
        (case (if b
               then (case load_synonym_map self section w of
                       Inl e \<Rightarrow> Inl e
                     | Inr map_table \<Rightarrow> Inr (custom_filters @ [MapSynonyms map_table]))
               else Inr custom_filters) of
           Inl e \<Rightarrow> Inl e
         | Inr custom_filters \<Rightarrow>
        (case getbool (configparser self) ''strip_punctuation'' section of
           Inl e \<Rightarrow> Inl e
         | Inr b \<Rightarrow>
        (let custom_filters =
               (if b then custom_filters @ [StripPunctuation] else custom_filters)
         in case getbool (configparser self) ''strip_multiple_whitespaces'' section of
              Inl e \<Rightarrow> Inl e
            | Inr b \<Rightarrow>
        (let custom_filters =
               (if b then custom_filters @ [StripMultipleWhitespaces] else custom_filters)
         in case getbool (configparser self) ''strip_numeric'' section of
              Inl e \<Rightarrow> Inl e
            | Inr b \<Rightarrow>
        (let custom_filters = (if b then custom_filters @ [StripNumeric] else custom_filters)
         in case getbool (configparser self) ''remove_stopwords'' section of
              Inl e \<Rightarrow> Inl e
            | Inr b \<Rightarrow>
        (case (if b
               then (case generate_custom_stopwords lib self section w of
                       Inl e \<Rightarrow> Inl e
                     | Inr stopwords \<Rightarrow> Inr (custom_filters @ [RemoveStopwords stopwords]))
               else Inr custom_filters) of
           Inl e \<Rightarrow> Inl e
         | Inr custom_filters \<Rightarrow>
        (case getbool (configparser self) ''strip_short'' section of
           Inl e \<Rightarrow> Inl e
         | Inr b \<Rightarrow>
        (case (if b
               then (case getint (configparser self) ''strip_short_minsize'' section of
                       Inl e \<Rightarrow> Inl e
                     | Inr minsize \<Rightarrow> Inr (custom_filters @ [StripShort minsize]))
               else Inr custom_filters) of
           Inl e \<Rightarrow> Inl e
         | Inr custom_filters \<Rightarrow>
        (case getbool (configparser self) ''lemmatize'' section of
           Inl e \<Rightarrow> Inl e
         | Inr b \<Rightarrow>
        (let custom_filters = (if b then custom_filters @ [Lemmatize] else custom_filters)
         in Inr custom_filters))))))))))))"



text \<open>\<open>DataFrame.drop\_duplicates(subset='phrase')\<close>: the first row of each phrase stays.\<close>

fun drop_duplicates_from :: "string list \<Rightarrow> (string \<times> 'f) list \<Rightarrow> (string \<times> 'f) list" where
  "drop_duplicates_from seen [] = []"
| "drop_duplicates_from seen (p # ps) =
     (if fst p \<in> set seen then drop_duplicates_from seen ps
      else p # drop_duplicates_from (fst p # seen) ps)"

definition drop_duplicates :: "(string \<times> 'f) list \<Rightarrow> (string \<times> 'f) list" where
  "drop_duplicates ps = drop_duplicates_from [] ps"

text \<open>
  \<open>\_generate\_phrase\<close> (lines 167 to 231). The function returns the Series and, here,
  the file system it leaves: training writes the model and the phrase dump.
\<close>

definition generate_phrase ::
  "('m, 'f) gensim \<Rightarrow> 'f FdcPreprocessManager \<Rightarrow> string list list \<Rightarrow> bool \<Rightarrow> string
     \<Rightarrow> ('m, 'f) world \<Rightarrow> (error + string list list) \<times> ('m, 'f) world"
where
  "generate_phrase lib self pd_data load_model section w =
     (case getbool (configparser self) ''generate_phrase'' section of
        Inl e \<Rightarrow> (Inl e, w)
      | Inr b \<Rightarrow>
     if \<not> b then (Inr pd_data, w)
     else if load_model then
       (case getstr (configparser self) ''phrase_model'' section of
          Inl e \<Rightarrow> (Inl e, w)
        | Inr model_filepath \<Rightarrow>
       (case Phraser_load w model_filepath of
          Inl e \<Rightarrow> (Inl e, w)
        | Inr model \<Rightarrow> (Inr (map (apply_phrases lib model) pd_data), w)))
     else
       (let sentences = pd_data
        in case getint (configparser self) ''min_count'' section of
             Inl e \<Rightarrow> (Inl e, w)
           | Inr min_count \<Rightarrow>
          (case getfloat (configparser self) ''threshold'' section of
             Inl e \<Rightarrow> (Inl e, w)
           | Inr threshold \<Rightarrow>
          (case getint (configparser self) ''max_vocab_size'' section of
             Inl e \<Rightarrow> (Inl e, w)
           | Inr max_vocab_size \<Rightarrow>
          (case getint (configparser self) ''progress_per'' section of
             Inl e \<Rightarrow> (Inl e, w)
           | Inr progress_per \<Rightarrow>
          (case getstr (configparser self) ''scoring'' section of
             Inl e \<Rightarrow> (Inl e, w)
           | Inr scoring \<Rightarrow>
          (case Phrases lib sentences min_count threshold max_vocab_size progress_per scoring of
             Inl e \<Rightarrow> (Inl e, w)
           | Inr model \<Rightarrow>
          (let pd_data = map (apply_phrases lib model) pd_data
           in case getstr (configparser self) ''phrase_model'' section of
                Inl e \<Rightarrow> (Inl e, w)
              | Inr model_filepath \<Rightarrow>
             (let w = w(model_filepath \<mapsto> ModelFile model);
                  phrase_score_list = export_phrases lib model sentences;
                  pd_phrase_score = drop_duplicates phrase_score_list
              in case getstr (configparser self) ''phrase_dump_filename'' section of
                   Inl e \<Rightarrow> (Inl e, w)
                 | Inr export_filepath \<Rightarrow>
                     (Inr pd_data, w(export_filepath \<mapsto> PhraseCsv pd_phrase_score)))))))))))"


text \<open>
  \<open>get\_vocabs\<close> (lines 259 to 271). \<open>list(set(vocabs))\<close> enumerates the distinct
  tokens in an order Python does not fix (it depends on the hashes of the strings); the
  enumeration is the parameter \<open>set_iter\<close>, and \<open>enumerates\<close> says what every
  enumeration does. \<open>sorted\<close> is stable, as \<open>sort_key\<close> is, and compares the
  lower-cased tokens as strings, character by character.
\<close>

definition enumerates :: "(string list \<Rightarrow> string list) \<Rightarrow> bool" where
  "enumerates set_iter = (\<forall>xs. distinct (set_iter xs) \<and> set (set_iter xs) = set xs)"

definition get_vocabs :: "(string list \<Rightarrow> string list) \<Rightarrow> string list \<Rightarrow> string list" where
  "get_vocabs set_iter pd_data =
     (let vocabs = concat (map (split_sep CHR '' '') pd_data);
          vocabs = set_iter vocabs;
          vocabs = sort_key lower vocabs
      in vocabs)"

text \<open>
  The configuration flag that switches a filter on, and the order in which the builder
  reads the flags.
\<close>

fun flag_of :: "filter_step \<Rightarrow> string" where
  "flag_of Lower = ''lower''"
| "flag_of (MapSynonyms map_table) = ''map_synonym''"
| "flag_of StripPunctuation = ''strip_punctuation''"
| "flag_of StripMultipleWhitespaces = ''strip_multiple_whitespaces''"
| "flag_of StripNumeric = ''strip_numeric''"
| "flag_of (RemoveStopwords stopwords) = ''remove_stopwords''"
| "flag_of (StripShort minsize) = ''strip_short''"
| "flag_of Lemmatize = ''lemmatize''"

definition canonical_order :: "string list" where
  "canonical_order =
     [''lower'', ''map_synonym'', ''strip_punctuation'', ''strip_multiple_whitespaces'',
      ''strip_numeric'', ''remove_stopwords'', ''strip_short'', ''lemmatize'']"


section \<open>A configuration, a file system and a library to run the model on\<close>

text \<open>
  A small configuration: lower-casing, synonym mapping, punctuation stripping and stop
  word removal are switched on, the other filters and the phrase generation are off.
  The files are a synonym map with one row, a list of two stop words to add and a list
  of two to remove. The library functions are simple stand-ins of the gensim functions.
\<close>

definition example_config :: "int stdlib_config" where
  "example_config =
     \<lparr> section_item = (\<lambda>section key.
         if section = ''filter'' \<and> key = ''synonym_map'' then Inr ''synonyms.tsv''
         else if section = ''filter'' \<and> key = ''stopwords_to_add'' then Inr ''add.txt''
         else if section = ''filter'' \<and> key = ''stopwords_to_remove'' then Inr ''remove.txt''
         else Inl (KeyError key)),
       std_getint = (\<lambda>section key.
         if section = ''filter'' \<and> key = ''strip_short_minsize'' then Inr 3
         else Inl (LibraryError ''NoOptionError'')),
       std_getboolean = (\<lambda>section key.
         if section = ''filter''
              \<and> key \<in> set [''lower'', ''map_synonym'', ''strip_punctuation'', ''remove_stopwords'']
         then Inr True
         else if section = ''filter''
              \<and> key \<in> set [''strip_multiple_whitespaces'', ''strip_numeric'', ''strip_short'',
                            ''lemmatize'']
         then Inr False
         else if section = ''phrase'' \<and> key = ''generate_phrase'' then Inr False
         else Inl (LibraryError ''NoOptionError'')),
       std_getfloat = (\<lambda>section key. Inl (LibraryError ''NoOptionError'')) \<rparr>"

definition example_manager :: "int FdcPreprocessManager" where
  "example_manager = \<lparr> configparser = \<lparr> config = example_config \<rparr> \<rparr>"

definition example_to_add_text :: string where
  "example_to_add_text = ''the'' @ [char_of (10 :: nat)] @ ''dog''"

definition example_to_remove_text :: string where
  "example_to_remove_text = ''dog'' @ [char_of (10 :: nat)] @ ''a'' @ [char_of (10 :: nat)]"

definition example_world :: "(unit, int) world" where
  "example_world =
     [''synonyms.tsv'' \<mapsto> SynonymCsv [(Str ''kitties'', Str ''cats'')],
      ''add.txt'' \<mapsto> TextFile example_to_add_text,
      ''remove.txt'' \<mapsto> TextFile example_to_remove_text]"

definition example_lib :: "(unit, int) gensim" where
  "example_lib =
     \<lparr> STOPWORDS = [''a'', ''of''],
       strip_punctuation = map (\<lambda>c. if c \<in> set ''.,;:!?'' then CHR '' '' else c),
       strip_multiple_whitespaces = (\<lambda>s. s),
       strip_numeric = filter (\<lambda>c. c \<notin> set ''0123456789''),
       strip_short = (\<lambda>s minsize. join '' '' (filter (\<lambda>e. minsize \<le> int (length e)) (split_ws s))),
       lemmatize = (\<lambda>s. Inl (LibraryError ''ImportError'')),
       Phrases = (\<lambda>sentences min_count threshold max_vocab_size progress_per scoring. Inr ()),
       apply_phrases = (\<lambda>model x. x),
       export_phrases = (\<lambda>model sentences. []) \<rparr>"

section \<open>Theorems\<close>

subsection \<open>The synonym mapper on an empty table\<close>

lemma search_empty_pattern: "search [[]] False prev rest = Some ([], [], rest)"
  by (cases rest) simp_all

text \<open>
  Claim C8. With an empty synonym table the mapper raises \<open>KeyError\<close> for the empty
  string on every text, the empty text included: the pattern joined from no key is the
  empty pattern, it matches the empty string at the first position, and the replacement
  function looks the matched empty string up in a table that has no key.
\<close>

theorem map_synonyms_empty_table: "map_synonyms s [] = Inl (KeyError [])"
  by (simp add: map_synonyms_def compile_keys_def re_sub_def getitem_def search_empty_pattern
      sub_loop.simps [of "[[]]" _ False None s])

subsection \<open>The synonym mapper on keys that begin and end with a word character\<close>

lemma last_char_Cons: "last_char prev (c # s) = last_char (Some c) s"
  by (simp add: last_char_def)

lemma re_sub_sub_text: "re_sub r repl s = sub_text r repl False None s"
  by (simp add: re_sub_def sub_text_def)

lemma sub_text_skip:
  assumes "match_first r adv prev (c # cs) = None"
  shows "sub_text r repl adv prev (c # cs) =
           (case sub_text r repl False (Some c) cs of
              Inl e \<Rightarrow> Inl e
            | Inr out \<Rightarrow> Inr (c # out))"
proof (cases "search r False (Some c) cs")
  case None
  then show ?thesis
    using assms by (simp add: sub_text_def sub_loop.simps [of r repl adv prev "c # cs"]
        sub_loop.simps [of r repl False "Some c" cs])
next
  case (Some a)
  obtain s m rest' where a: "a = (s, m, rest')" by (cases a)
  show ?thesis
    using assms Some a
    by (simp add: sub_text_def sub_loop.simps [of r repl adv prev "c # cs"]
        sub_loop.simps [of r repl False "Some c" cs] last_char_Cons
        split: sum.splits)
qed

lemma sub_text_end:
  assumes "match_first r adv prev [] = None"
  shows "sub_text r repl adv prev [] = Inr []"
  using assms by (simp add: sub_text_def sub_loop.simps [of r repl adv prev "[]"])

lemma sub_text_match:
  assumes "match_first r adv prev rest = Some (m, rest')" and "repl m = Inr (Str v)"
  shows "sub_text r repl adv prev rest =
           (case sub_text r repl (m = []) (last_char prev m) rest' of
              Inl e \<Rightarrow> Inl e
            | Inr out \<Rightarrow> Inr (v @ out))"
  using assms
  by (cases rest)
     (simp_all add: sub_text_def sub_loop.simps [of r repl adv prev] split: sum.splits)

lemma match_lits:
  "match_alt (map Lit k @ [WordBoundary]) prev rest =
     (if take (length k) rest = k \<and> at_boundary (last_char prev k) (drop (length k) rest)
      then Some (k, drop (length k) rest) else None)"
proof (induction k arbitrary: prev rest)
  case Nil
  show ?case by (simp add: last_char_def)
next
  case (Cons c k)
  show ?case
  proof (cases rest)
    case Nil
    then show ?thesis by simp
  next
    case (Cons d rest')
    then show ?thesis
      using Cons.IH [of "Some d" rest'] by (auto simp: last_char_Cons)
  qed
qed

lemma match_key:
  "match_alt ([WordBoundary] @ map Lit k @ [WordBoundary]) prev rest =
     (if at_boundary prev rest \<and> take (length k) rest = k
         \<and> at_boundary (last_char prev k) (drop (length k) rest)
      then Some (k, drop (length k) rest) else None)"
  using match_lits [of k prev rest] by simp


lemma edge_key_match:
  assumes "edge_key k"
  shows "match_alt ([WordBoundary] @ map Lit k @ [WordBoundary]) prev rest =
           (if whole_word_at prev rest k then Some (k, drop (length k) rest) else None)"
proof (cases "take (length k) rest = k")
  case False
  then show ?thesis unfolding match_key by (simp add: whole_word_at_def)
next
  case True
  from assms have ne: "k \<noteq> []" and h: "is_word (hd k)" and l: "is_word (last k)"
    by (simp_all add: edge_key_def)
  from True ne obtain cs where rest: "rest = hd k # cs"
    by (cases rest; cases k) auto
  have b1: "at_boundary prev rest = (\<not> word_opt prev)"
    using rest h by (simp add: at_boundary_def word_opt_def)
  have b2: "at_boundary (last_char prev k) (drop (length k) rest) =
              (case drop (length k) rest of [] \<Rightarrow> True | c # _ \<Rightarrow> \<not> is_word c)"
    using ne l by (cases "drop (length k) rest") (simp_all add: at_boundary_def word_opt_def last_char_def)
  show ?thesis
    unfolding match_key b1 b2 using True ne by (simp add: whole_word_at_def)
qed

lemma edge_keys_match_first:
  assumes "list_all edge_key keys"
  shows "match_first (map (\<lambda>s. [WordBoundary] @ map Lit s @ [WordBoundary]) keys) adv prev rest =
           (case find (whole_word_at prev rest) keys of
              None \<Rightarrow> None
            | Some k \<Rightarrow> Some (k, drop (length k) rest))"
  using assms
proof (induction keys)
  case Nil
  show ?case by simp
next
  case (Cons k keys)
  then have k: "edge_key k" by simp
  then have "k \<noteq> []" by (simp add: edge_key_def)
  with Cons edge_key_match [OF k, of prev rest] show ?case by simp
qed

lemma map_of_str_table: "map_of (str_table kvs) (Str k) = map_option Str (map_of kvs k)"
  by (induction kvs) (auto simp: str_table_def)

lemma getitem_str_table:
  "map_of kvs k = Some v \<Longrightarrow> getitem (str_table kvs) k = Inr (Str v)"
  by (simp add: getitem_def map_of_str_table)

lemma escape_keys_str_table: "escape_keys (map fst (str_table kvs)) = Inr (map fst kvs)"
  by (induction kvs) (auto simp: str_table_def)

lemma sub_text_whole_words:
  assumes "list_all edge_key (map fst kvs)"
  shows "sub_text (map (\<lambda>s. [WordBoundary] @ map Lit s @ [WordBoundary]) (map fst kvs))
           (getitem (str_table kvs)) adv prev rest =
         Inr (replace_whole_words_from kvs prev rest)"
  using assms
proof (induction kvs prev rest arbitrary: adv rule: replace_whole_words_from.induct)
  case (1 kvs prev)
  note keys = "1.prems"
  have "match_first (map (\<lambda>s. [WordBoundary] @ map Lit s @ [WordBoundary]) (map fst kvs))
          adv prev [] = None"
  proof -
    have "find (whole_word_at prev []) (map fst kvs) = None"
      by (auto simp: find_None_iff whole_word_at_def)
    then show ?thesis unfolding edge_keys_match_first [OF keys] by simp
  qed
  from sub_text_end [OF this] show ?case by simp
next
  case (2 kvs prev c cs)
  note keys = "2.prems"
  let ?r = "map (\<lambda>s. [WordBoundary] @ map Lit s @ [WordBoundary]) (map fst kvs)"
  show ?case
  proof (cases "find (whole_word_at prev (c # cs)) (map fst kvs)")
    case None
    then have "match_first ?r adv prev (c # cs) = None"
      unfolding edge_keys_match_first [OF keys] by simp
    from sub_text_skip [OF this] "2.IH"(1) [OF None keys] None show ?thesis by simp
  next
    case (Some k)
    then have m: "match_first ?r adv prev (c # cs) = Some (k, drop (length k) (c # cs))"
      unfolding edge_keys_match_first [OF keys] by simp
    from Some have "k \<in> set (map fst kvs)" and w: "whole_word_at prev (c # cs) k"
      by (auto simp: find_Some_iff)
    then obtain v where v: "map_of kvs k = Some v"
      by (metis map_of_eq_None_iff not_Some_eq set_map)
    from w have ne: "k \<noteq> []" by (simp add: whole_word_at_def)
    then have lc: "last_char prev k = Some (last k)" by (simp add: last_char_def)
    from sub_text_match [where repl = "getitem (str_table kvs)", OF m getitem_str_table [OF v]]
      "2.IH"(2) [OF Some keys] Some v ne lc
    show ?thesis by simp
  qed
qed



text \<open>
  Claim C4, as amended. For a table of strings that is not empty and whose keys begin
  and end with a word character, the mapper returns the text in which every occurrence
  of a key that is a whole word (no word character directly before it and none directly
  after it), met when the text is read from left to right, is replaced by the value of
  the key; nothing else changes, so a key that occurs inside a larger word is never
  replaced. The table \<open>{foo: baz}\<close> sends \<open>foo bar\<close> to \<open>baz bar\<close> and leaves
  \<open>foobar\<close> as it is.
\<close>

theorem map_synonyms_whole_words:
  assumes "kvs \<noteq> []" and "list_all edge_key (map fst kvs)"
  shows "map_synonyms s (str_table kvs) = Inr (replace_whole_words kvs s)"
  using sub_text_whole_words [OF assms(2), of False None s] assms(1)
  by (simp add: map_synonyms_def escape_keys_str_table compile_keys_def re_sub_sub_text
      replace_whole_words_def)

theorem map_synonyms_whole_words_witness:
  "map_synonyms ''foo bar'' (str_table [(''foo'', ''baz'')]) = Inr ''baz bar''
   \<and> map_synonyms ''foobar'' (str_table [(''foo'', ''baz'')]) = Inr ''foobar''
   \<and> map_synonyms ''nice cream, ice cream'' (str_table [(''ice cream'', ''gelato'')])
       = Inr ''nice cream, gelato''"
proof -
  have 1: "[(''foo'', ''baz'')] \<noteq> []" and 2: "[(''ice cream'', ''gelato'')] \<noteq> []"
    by simp_all
  have 3: "list_all edge_key (map fst [(''foo'', ''baz'')])"
    by (simp add: edge_key_def is_word_def)
  have 4: "list_all edge_key (map fst [(''ice cream'', ''gelato'')])"
    by (simp add: edge_key_def is_word_def)
  have 5: "replace_whole_words [(''foo'', ''baz'')] ''foo bar'' = ''baz bar''"
    by code_simp
  have 6: "replace_whole_words [(''foo'', ''baz'')] ''foobar'' = ''foobar''"
    by code_simp
  have 7: "replace_whole_words [(''ice cream'', ''gelato'')] ''nice cream, ice cream''
             = ''nice cream, gelato''"
    by code_simp
  show ?thesis
    using map_synonyms_whole_words [OF 1 3, of "''foo bar''"]
      map_synonyms_whole_words [OF 1 3, of "''foobar''"]
      map_synonyms_whole_words [OF 2 4, of "''nice cream, ice cream''"]
    unfolding 5 6 7 by simp
qed

text \<open>
  The claim as it stands fails for a key that does not begin and end with a word
  character. The key \<open>c++\<close> stands in \<open>c++ code\<close> as a whole word, between the start
  of the text and a blank, and the contract replaces it; the mapper leaves it, because
  \<open>\b\<close> does not hold between \<open>+\<close> and the blank.
\<close>

theorem map_synonyms_whole_word_counterexample:
  "map_synonyms ''c++ code'' (str_table [(''c++'', ''cpp'')]) = Inr ''c++ code''
   \<and> replace_whole_words [(''c++'', ''cpp'')] ''c++ code'' = ''cpp code''"
  by code_simp

subsection \<open>The vocabulary\<close>

lemma split_sep_not_Nil: "split_sep sep s \<noteq> []"
  by (induction s) (auto split: list.splits)

lemma split_sep_empty: "split_sep sep [] = [[]]"
  by simp

lemma set_get_vocabs:
  assumes "enumerates set_iter"
  shows "set (get_vocabs set_iter pd_data) = (\<Union>row\<in>set pd_data. set (split_sep CHR '' '' row))"
  using assms by (simp add: get_vocabs_def enumerates_def)

lemma enumerates_remdups: "enumerates remdups"
  by (simp add: enumerates_def)

text \<open>
  Claim C1, as amended. For every enumeration order of the set, the vocabulary has no
  token twice, its tokens are exactly the pieces of the processed strings cut at every
  single blank (tokens that differ in case only are different tokens and both stay),
  it is sorted by the lower-cased tokens, and tokens with the same lower-cased form
  stand in the order in which the set enumerates them. For the strings \<open>a b\<close> and
  \<open>B c\<close> it holds the four tokens \<open>a\<close>, \<open>b\<close>, \<open>B\<close>, \<open>c\<close>.
\<close>

theorem get_vocabs_spec:
  assumes "enumerates set_iter"
  shows "distinct (get_vocabs set_iter pd_data)
         \<and> set (get_vocabs set_iter pd_data)
             = (\<Union>row\<in>set pd_data. set (split_sep CHR '' '' row))
         \<and> sorted (map lower (get_vocabs set_iter pd_data))
         \<and> (\<forall>k. filter (\<lambda>y. lower y = k) (get_vocabs set_iter pd_data)
                = filter (\<lambda>y. lower y = k)
                    (set_iter (concat (map (split_sep CHR '' '') pd_data))))"
proof -
  have "filter (\<lambda>y. lower y = k) (get_vocabs set_iter pd_data)
          = filter (\<lambda>y. lower y = k) (set_iter (concat (map (split_sep CHR '' '') pd_data)))"
    for k
    by (simp add: get_vocabs_def sort_key_stable)
  then show ?thesis
    using assms set_get_vocabs [OF assms, of pd_data]
    by (simp add: get_vocabs_def enumerates_def)
qed

theorem get_vocabs_spec_witness:
  "enumerates remdups
   \<and> get_vocabs remdups [''a b'', ''B c''] = [''a'', ''b'', ''B'', ''c'']
   \<and> remdups (concat (map (split_sep CHR '' '') [''a b'', ''B c''])) = [''a'', ''b'', ''B'', ''c'']
   \<and> distinct (get_vocabs remdups [''a b'', ''B c''])
   \<and> set (get_vocabs remdups [''a b'', ''B c''])
       = (\<Union>row\<in>set [''a b'', ''B c'']. set (split_sep CHR '' '' row))
   \<and> sorted (map lower (get_vocabs remdups [''a b'', ''B c'']))
   \<and> filter (\<lambda>y. lower y = ''b'') (get_vocabs remdups [''a b'', ''B c''])
       = filter (\<lambda>y. lower y = ''b'')
           (remdups (concat (map (split_sep CHR '' '') [''a b'', ''B c''])))"
proof -
  have 1: "get_vocabs remdups [''a b'', ''B c''] = [''a'', ''b'', ''B'', ''c'']"
    by code_simp
  have 2: "remdups (concat (map (split_sep CHR '' '') [''a b'', ''B c'']))
             = [''a'', ''b'', ''B'', ''c'']"
    by code_simp
  from get_vocabs_spec [OF enumerates_remdups, of "[''a b'', ''B c'']"]
  have "distinct (get_vocabs remdups [''a b'', ''B c''])"
    and "set (get_vocabs remdups [''a b'', ''B c''])
       = (\<Union>row\<in>set [''a b'', ''B c'']. set (split_sep CHR '' '' row))"
    and "sorted (map lower (get_vocabs remdups [''a b'', ''B c'']))"
    and "filter (\<lambda>y. lower y = ''b'') (get_vocabs remdups [''a b'', ''B c''])
       = filter (\<lambda>y. lower y = ''b'')
           (remdups (concat (map (split_sep CHR '' '') [''a b'', ''B c''])))"
    by blast+
  with 1 2 enumerates_remdups show ?thesis by blast
qed

text \<open>
  The claim as it stands fails, in its example and in both of its rules. Whatever the
  enumeration order of the set, the vocabulary of \<open>a b\<close> and \<open>B c\<close> is not
  \<open>[a, b, c]\<close>: \<open>B\<close> is in it, so tokens are not deduplicated up to case. And the
  strings are not cut at whitespace: a tabulator is whitespace, and the vocabulary of
  the one string \<open>a\<close>, tabulator, \<open>b\<close> is not \<open>[a, b]\<close>, whatever the order.
\<close>

theorem get_vocabs_example_counterexample:
  "\<not> (\<exists>set_iter. enumerates set_iter
         \<and> get_vocabs set_iter [''a b'', ''B c''] = [''a'', ''b'', ''c''])
   \<and> is_space (CHR 0x09)
   \<and> \<not> (\<exists>set_iter. enumerates set_iter
         \<and> get_vocabs set_iter [[CHR ''a'', CHR 0x09, CHR ''b'']] = [''a'', ''b''])"
proof (intro conjI notI)
  assume "\<exists>set_iter. enumerates set_iter
         \<and> get_vocabs set_iter [''a b'', ''B c''] = [''a'', ''b'', ''c'']"
  then obtain set_iter where e: "enumerates set_iter"
    and g: "get_vocabs set_iter [''a b'', ''B c''] = [''a'', ''b'', ''c'']"
    by blast
  have "''B'' \<in> set (get_vocabs set_iter [''a b'', ''B c''])"
    unfolding set_get_vocabs [OF e] by simp
  with g show False by simp
next
  show "is_space (CHR 0x09)" by (simp add: is_space_def)
next
  assume "\<exists>set_iter. enumerates set_iter
         \<and> get_vocabs set_iter [[CHR ''a'', CHR 0x09, CHR ''b'']] = [''a'', ''b'']"
  then obtain set_iter where e: "enumerates set_iter"
    and g: "get_vocabs set_iter [[CHR ''a'', CHR 0x09, CHR ''b'']] = [''a'', ''b'']"
    by blast
  have "[CHR ''a'', CHR 0x09, CHR ''b''] \<in> set (get_vocabs set_iter [[CHR ''a'', CHR 0x09, CHR ''b'']])"
    unfolding set_get_vocabs [OF e] by simp
  with g show False by simp
qed

text \<open>
  Claim C9. If one of the processed strings is empty, the empty string is a token of
  the vocabulary: cutting the empty string at blanks gives one empty piece.
\<close>

theorem get_vocabs_empty_token:
  assumes "enumerates set_iter" and "[] \<in> set pd_data"
  shows "[] \<in> set (get_vocabs set_iter pd_data)"
proof -
  have "[] \<in> set (split_sep CHR '' '' [])" by simp
  with assms(2) show ?thesis
    unfolding set_get_vocabs [OF assms(1)] by blast
qed

theorem get_vocabs_empty_token_witness:
  "enumerates remdups \<and> [] \<in> set [''a b'', []]
   \<and> [] \<in> set (get_vocabs remdups [''a b'', []])"
proof -
  have m: "[] \<in> set [''a b'', []]" by simp
  show ?thesis
    using get_vocabs_empty_token [OF enumerates_remdups m] enumerates_remdups by simp
qed

subsection \<open>The stop words and the phrase step\<close>

lemmas example_defs =
  example_config_def example_manager_def example_world_def example_lib_def
  getstr_def getbool_def getint_def getfloat_def open_read_def read_csv_def

text \<open>
  Claim C3. Whatever the base stop words \<open>B\<close> of the library and whatever the texts
  of the two files the configuration names, with the lines \<open>A\<close> of the file to add and
  the lines \<open>R\<close> of the file to remove the builder returns the set
  \<open>(B \<union> A) - R\<close>; a word in both \<open>A\<close> and \<open>R\<close> is not in the result.
\<close>

theorem generate_custom_stopwords_spec:
  assumes "getstr (configparser self) ''stopwords_to_add'' section = Inr add_path"
    and "open_read w add_path = Inr add_text"
    and "getstr (configparser self) ''stopwords_to_remove'' section = Inr remove_path"
    and "open_read w remove_path = Inr remove_text"
  shows "generate_custom_stopwords lib self section w =
           Inr ((set (STOPWORDS lib) \<union> set (splitlines add_text))
                  - set (splitlines remove_text))
         \<and> set (splitlines add_text) \<inter> set (splitlines remove_text)
             \<inter> ((set (STOPWORDS lib) \<union> set (splitlines add_text))
                  - set (splitlines remove_text)) = {}"
  using assms by (auto simp: generate_custom_stopwords_def)

lemma splitlines_add: "splitlines example_to_add_text = [''the'', ''dog'']"
  by (simp add: example_to_add_text_def splitlines_def is_linebreak_def)

lemma splitlines_remove: "splitlines example_to_remove_text = [''dog'', ''a'']"
  by (simp add: example_to_remove_text_def splitlines_def is_linebreak_def)

theorem generate_custom_stopwords_spec_witness:
  "generate_custom_stopwords example_lib example_manager ''filter'' example_world =
     Inr ((set [''a'', ''of''] \<union> set [''the'', ''dog'']) - set [''dog'', ''a''])
   \<and> (set [''a'', ''of''] \<union> set [''the'', ''dog'']) - set [''dog'', ''a''] = {''of'', ''the''}"
proof -
  have 1: "getstr (configparser example_manager) ''stopwords_to_add'' ''filter'' = Inr ''add.txt''"
    by (simp add: example_defs)
  have 2: "open_read example_world ''add.txt'' = Inr example_to_add_text"
    by (simp add: example_defs)
  have 3: "getstr (configparser example_manager) ''stopwords_to_remove'' ''filter''
             = Inr ''remove.txt''"
    by (simp add: example_defs)
  have 4: "open_read example_world ''remove.txt'' = Inr example_to_remove_text"
    by (simp add: example_defs)
  have 5: "STOPWORDS example_lib = [''a'', ''of'']" by (simp add: example_lib_def)
  have 6: "(set [''a'', ''of''] \<union> set [''the'', ''dog'']) - set [''dog'', ''a''] = {''of'', ''the''}"
    by auto
  from generate_custom_stopwords_spec [OF 1 2 3 4, of example_lib]
  have "generate_custom_stopwords example_lib example_manager ''filter'' example_world =
     Inr ((set [''a'', ''of''] \<union> set [''the'', ''dog'']) - set [''dog'', ''a''])"
    unfolding 5 splitlines_add splitlines_remove by blast
  with 6 show ?thesis by blast
qed

text \<open>
  Claim C7. When the configuration switches phrase generation off, the phrase step
  returns the token sequences it was given, in train mode and in load mode, and leaves
  the files as they are: no model is loaded, trained or saved, no phrase is exported.
\<close>

theorem generate_phrase_disabled:
  assumes "getbool (configparser self) ''generate_phrase'' section = Inr False"
  shows "generate_phrase lib self pd_data load_model section w = (Inr pd_data, w)"
  using assms by (simp add: generate_phrase_def)

theorem generate_phrase_disabled_witness:
  "generate_phrase example_lib example_manager [[''cats'', ''sat'']] False ''phrase'' example_world
     = (Inr [[''cats'', ''sat'']], example_world)
   \<and> generate_phrase example_lib example_manager [[''cats'', ''sat'']] True ''phrase'' example_world
     = (Inr [[''cats'', ''sat'']], example_world)"
proof -
  have h: "getbool (configparser example_manager) ''generate_phrase'' ''phrase'' = Inr False"
    by (simp add: example_defs)
  show ?thesis
    using generate_phrase_disabled [OF h, of example_lib _ False example_world]
      generate_phrase_disabled [OF h, of example_lib _ True example_world]
    by simp
qed

subsection \<open>The filter chain builder\<close>

lemma filter_Cons_if: "filter P (x # xs) = (if P x then [x] else []) @ filter P xs"
  by simp

lemma stage_plain:
  assumes "(case gk of Inl e \<Rightarrow> Inl e | Inr b \<Rightarrow> K (if b then fs @ [f] else fs)) = Inr out"
  obtains b fs' where "gk = Inr b" and "K fs' = Inr out"
    and "map flag_of fs' = map flag_of fs @ (if b then [flag_of f] else [])"
proof (cases gk)
  case (Inl e)
  with assms show ?thesis by simp
next
  case (Inr b)
  with assms have "K (if b then fs @ [f] else fs) = Inr out" by simp
  moreover have "map flag_of (if b then fs @ [f] else fs)
      = map flag_of fs @ (if b then [flag_of f] else [])"
    by simp
  ultimately show ?thesis using Inr that by blast
qed

lemma stage_resource:
  assumes "(case gk of
              Inl e \<Rightarrow> Inl e
            | Inr b \<Rightarrow>
                (case (if b then (case m of Inl e \<Rightarrow> Inl e | Inr x \<Rightarrow> Inr (fs @ [mk x]))
                       else Inr fs) of
                   Inl e \<Rightarrow> Inl e
                 | Inr fs' \<Rightarrow> K fs')) = Inr out"
    and "\<And>x. flag_of (mk x) = key"
  obtains b fs' where "gk = Inr b" and "K fs' = Inr out"
    and "map flag_of fs' = map flag_of fs @ (if b then [key] else [])"
proof (cases gk)
  case (Inl e)
  with assms show ?thesis by simp
next
  case (Inr b)
  show ?thesis
  proof (cases b)
    case False
    with Inr assms(1) have "K fs = Inr out" by simp
    with Inr False that [of b fs] show ?thesis by simp
  next
    case True
    show ?thesis
    proof (cases m)
      case (Inl e)
      with Inr True assms(1) show ?thesis by simp
    next
      case x: (Inr x)
      with Inr True assms(1) have "K (fs @ [mk x]) = Inr out" by simp
      with Inr True that [of b "fs @ [mk x]"] assms(2) show ?thesis by simp
    qed
  qed
qed

lemma build_custom_filter_list_flags:
  assumes "build_custom_filter_list lib self section w = Inr custom_filters"
  shows "map flag_of custom_filters =
           filter (\<lambda>key. getbool (configparser self) key section = Inr True) canonical_order"
proof -
  define g where "g = (\<lambda>key. getbool (configparser self) key section)"
  define E where "E = (\<lambda>key. g key = Inr True)"
  have E: "E key = b" if "g key = Inr b" for key b
    using that by (simp add: E_def)
  define k8 where "k8 = (\<lambda>fs.
    case g ''lemmatize'' of
      Inl e \<Rightarrow> Inl e
    | Inr b \<Rightarrow> Inr (if b then fs @ [Lemmatize] else fs))"
  define k7 where "k7 = (\<lambda>fs.
    case g ''strip_short'' of
      Inl e \<Rightarrow> Inl e
    | Inr b \<Rightarrow>
        (case (if b
               then (case getint (configparser self) ''strip_short_minsize'' section of
                       Inl e \<Rightarrow> Inl e
                     | Inr minsize \<Rightarrow> Inr (fs @ [StripShort minsize]))
               else Inr fs) of
           Inl e \<Rightarrow> Inl e
         | Inr fs' \<Rightarrow> k8 fs'))"
  define k6 where "k6 = (\<lambda>fs.
    case g ''remove_stopwords'' of
      Inl e \<Rightarrow> Inl e
    | Inr b \<Rightarrow>
        (case (if b
               then (case generate_custom_stopwords lib self section w of
                       Inl e \<Rightarrow> Inl e
                     | Inr stopwords \<Rightarrow> Inr (fs @ [RemoveStopwords stopwords]))
               else Inr fs) of
           Inl e \<Rightarrow> Inl e
         | Inr fs' \<Rightarrow> k7 fs'))"
  define k5 where "k5 = (\<lambda>fs.
    case g ''strip_numeric'' of
      Inl e \<Rightarrow> Inl e
    | Inr b \<Rightarrow> k6 (if b then fs @ [StripNumeric] else fs))"
  define k4 where "k4 = (\<lambda>fs.
    case g ''strip_multiple_whitespaces'' of
      Inl e \<Rightarrow> Inl e
    | Inr b \<Rightarrow> k5 (if b then fs @ [StripMultipleWhitespaces] else fs))"
  define k3 where "k3 = (\<lambda>fs.
    case g ''strip_punctuation'' of
      Inl e \<Rightarrow> Inl e
    | Inr b \<Rightarrow> k4 (if b then fs @ [StripPunctuation] else fs))"
  define k2 where "k2 = (\<lambda>fs.
    case g ''map_synonym'' of
      Inl e \<Rightarrow> Inl e
    | Inr b \<Rightarrow>
        (case (if b
               then (case load_synonym_map self section w of
                       Inl e \<Rightarrow> Inl e
                     | Inr map_table \<Rightarrow> Inr (fs @ [MapSynonyms map_table]))
               else Inr fs) of
           Inl e \<Rightarrow> Inl e
         | Inr fs' \<Rightarrow> k3 fs'))"
  define k1 where "k1 = (\<lambda>fs.
    case g ''lower'' of
      Inl e \<Rightarrow> Inl e
    | Inr b \<Rightarrow> k2 (if b then fs @ [Lower] else fs))"
  have build: "build_custom_filter_list lib self section w = k1 []"
    unfolding build_custom_filter_list_def Let_def
      k1_def k2_def k3_def k4_def k5_def k6_def k7_def k8_def g_def
    by (rule refl)
  define t8 where "t8 = filter E [''lemmatize'']"
  define t7 where "t7 = filter E [''strip_short'', ''lemmatize'']"
  define t6 where "t6 = filter E [''remove_stopwords'', ''strip_short'', ''lemmatize'']"
  define t5 where "t5 = filter E [''strip_numeric'', ''remove_stopwords'', ''strip_short'',
    ''lemmatize'']"
  define t4 where "t4 = filter E [''strip_multiple_whitespaces'', ''strip_numeric'',
    ''remove_stopwords'', ''strip_short'', ''lemmatize'']"
  define t3 where "t3 = filter E [''strip_punctuation'', ''strip_multiple_whitespaces'',
    ''strip_numeric'', ''remove_stopwords'', ''strip_short'', ''lemmatize'']"
  define t2 where "t2 = filter E [''map_synonym'', ''strip_punctuation'',
    ''strip_multiple_whitespaces'', ''strip_numeric'', ''remove_stopwords'', ''strip_short'',
    ''lemmatize'']"
  define t1 where "t1 = filter E canonical_order"
  have t8: "t8 = (if E ''lemmatize'' then [''lemmatize''] else []) @ []"
    unfolding t8_def by (rule filter_Cons_if [of E _ "[]", simplified filter.simps(1)])
  have t7: "t7 = (if E ''strip_short'' then [''strip_short''] else []) @ t8"
    unfolding t7_def t8_def by (rule filter_Cons_if)
  have t6: "t6 = (if E ''remove_stopwords'' then [''remove_stopwords''] else []) @ t7"
    unfolding t6_def t7_def by (rule filter_Cons_if)
  have t5: "t5 = (if E ''strip_numeric'' then [''strip_numeric''] else []) @ t6"
    unfolding t5_def t6_def by (rule filter_Cons_if)
  have t4: "t4 = (if E ''strip_multiple_whitespaces'' then [''strip_multiple_whitespaces'']
                  else []) @ t5"
    unfolding t4_def t5_def by (rule filter_Cons_if)
  have t3: "t3 = (if E ''strip_punctuation'' then [''strip_punctuation''] else []) @ t4"
    unfolding t3_def t4_def by (rule filter_Cons_if)
  have t2: "t2 = (if E ''map_synonym'' then [''map_synonym''] else []) @ t3"
    unfolding t2_def t3_def by (rule filter_Cons_if)
  have t1: "t1 = (if E ''lower'' then [''lower''] else []) @ t2"
    unfolding t1_def t2_def canonical_order_def by (rule filter_Cons_if)
  have step: "map flag_of out = map flag_of fs @ (if E key then [key] else []) @ t"
    if "g key = Inr b" and "map flag_of fs' = map flag_of fs @ (if b then [key] else [])"
      and "map flag_of out = map flag_of fs' @ t"
    for out fs fs' key b t
    using that E [OF that(1)] by simp
  have s8: "map flag_of out = map flag_of fs @ t8" if "k8 fs = Inr out" for fs out
  proof -
    have "(case g ''lemmatize'' of Inl e \<Rightarrow> Inl e
           | Inr b \<Rightarrow> Inr (if b then fs @ [Lemmatize] else fs)) = Inr out"
      using that unfolding k8_def .
    then obtain b fs' where "g ''lemmatize'' = Inr b" and "Inr fs' = Inr out"
      and "map flag_of fs' = map flag_of fs @ (if b then [flag_of Lemmatize] else [])"
      by (rule stage_plain [where K = Inr]) blast
    then show ?thesis unfolding t8 using E [of "''lemmatize''" b] by simp
  qed
  have s7: "map flag_of out = map flag_of fs @ t7" if "k7 fs = Inr out" for fs out
  proof -
    from that [unfolded k7_def]
    obtain b fs' where b: "g ''strip_short'' = Inr b" and k: "k8 fs' = Inr out"
      and fs': "map flag_of fs' = map flag_of fs @ (if b then [''strip_short''] else [])"
      by (rule stage_resource [where K = k8 and mk = StripShort]) (simp, blast)
    show ?thesis unfolding t7 by (rule step [OF b fs' s8 [OF k]])
  qed
  have s6: "map flag_of out = map flag_of fs @ t6" if "k6 fs = Inr out" for fs out
  proof -
    from that [unfolded k6_def]
    obtain b fs' where b: "g ''remove_stopwords'' = Inr b" and k: "k7 fs' = Inr out"
      and fs': "map flag_of fs' = map flag_of fs @ (if b then [''remove_stopwords''] else [])"
      by (rule stage_resource [where K = k7 and mk = RemoveStopwords]) (simp, blast)
    show ?thesis unfolding t6 by (rule step [OF b fs' s7 [OF k]])
  qed
  have s5: "map flag_of out = map flag_of fs @ t5" if "k5 fs = Inr out" for fs out
  proof -
    from that [unfolded k5_def]
    obtain b fs' where b: "g ''strip_numeric'' = Inr b" and k: "k6 fs' = Inr out"
      and fs': "map flag_of fs' = map flag_of fs @ (if b then [flag_of StripNumeric] else [])"
      by (rule stage_plain [where K = k6]) blast
    show ?thesis unfolding t5 by (rule step [OF b fs' [unfolded flag_of.simps] s6 [OF k]])
  qed
  have s4: "map flag_of out = map flag_of fs @ t4" if "k4 fs = Inr out" for fs out
  proof -
    from that [unfolded k4_def]
    obtain b fs' where b: "g ''strip_multiple_whitespaces'' = Inr b" and k: "k5 fs' = Inr out"
      and fs': "map flag_of fs' = map flag_of fs
          @ (if b then [flag_of StripMultipleWhitespaces] else [])"
      by (rule stage_plain [where K = k5]) blast
    show ?thesis unfolding t4 by (rule step [OF b fs' [unfolded flag_of.simps] s5 [OF k]])
  qed
  have s3: "map flag_of out = map flag_of fs @ t3" if "k3 fs = Inr out" for fs out
  proof -
    from that [unfolded k3_def]
    obtain b fs' where b: "g ''strip_punctuation'' = Inr b" and k: "k4 fs' = Inr out"
      and fs': "map flag_of fs' = map flag_of fs @ (if b then [flag_of StripPunctuation] else [])"
      by (rule stage_plain [where K = k4]) blast
    show ?thesis unfolding t3 by (rule step [OF b fs' [unfolded flag_of.simps] s4 [OF k]])
  qed
  have s2: "map flag_of out = map flag_of fs @ t2" if "k2 fs = Inr out" for fs out
  proof -
    from that [unfolded k2_def]
    obtain b fs' where b: "g ''map_synonym'' = Inr b" and k: "k3 fs' = Inr out"
      and fs': "map flag_of fs' = map flag_of fs @ (if b then [''map_synonym''] else [])"
      by (rule stage_resource [where K = k3 and mk = MapSynonyms]) (simp, blast)
    show ?thesis unfolding t2 by (rule step [OF b fs' s3 [OF k]])
  qed
  have s1: "map flag_of out = map flag_of fs @ t1" if "k1 fs = Inr out" for fs out
  proof -
    from that [unfolded k1_def]
    obtain b fs' where b: "g ''lower'' = Inr b" and k: "k2 fs' = Inr out"
      and fs': "map flag_of fs' = map flag_of fs @ (if b then [flag_of Lower] else [])"
      by (rule stage_plain [where K = k2]) blast
    show ?thesis unfolding t1 by (rule step [OF b fs' [unfolded flag_of.simps] s2 [OF k]])
  qed
  from assms have "k1 [] = Inr custom_filters" by (simp only: build)
  from s1 [OF this] show ?thesis by (simp add: t1_def E_def g_def)
qed


lemma build_custom_filter_list_exact:
  assumes "getbool (configparser self) ''lower'' section = Inr b_lower"
    and "getbool (configparser self) ''map_synonym'' section = Inr b_map_synonym"
    and "getbool (configparser self) ''strip_punctuation'' section = Inr b_strip_punctuation"
    and "getbool (configparser self) ''strip_multiple_whitespaces'' section
           = Inr b_strip_multiple_whitespaces"
    and "getbool (configparser self) ''strip_numeric'' section = Inr b_strip_numeric"
    and "getbool (configparser self) ''remove_stopwords'' section = Inr b_remove_stopwords"
    and "getbool (configparser self) ''strip_short'' section = Inr b_strip_short"
    and "getbool (configparser self) ''lemmatize'' section = Inr b_lemmatize"
    and "b_map_synonym \<longrightarrow> load_synonym_map self section w = Inr map_table"
    and "b_remove_stopwords \<longrightarrow> generate_custom_stopwords lib self section w = Inr stopwords"
    and "b_strip_short \<longrightarrow>
           getint (configparser self) ''strip_short_minsize'' section = Inr minsize"
  shows "build_custom_filter_list lib self section w =
           Inr ((if b_lower then [Lower] else [])
                @ (if b_map_synonym then [MapSynonyms map_table] else [])
                @ (if b_strip_punctuation then [StripPunctuation] else [])
                @ (if b_strip_multiple_whitespaces then [StripMultipleWhitespaces] else [])
                @ (if b_strip_numeric then [StripNumeric] else [])
                @ (if b_remove_stopwords then [RemoveStopwords stopwords] else [])
                @ (if b_strip_short then [StripShort minsize] else [])
                @ (if b_lemmatize then [Lemmatize] else []))"
  using assms
  by (cases b_map_synonym; cases b_remove_stopwords; cases b_strip_short)
     (simp_all add: build_custom_filter_list_def Let_def)

lemma example_stopwords:
  "generate_custom_stopwords example_lib example_manager ''filter'' example_world
     = Inr {''of'', ''the''}"
  by (auto simp: generate_custom_stopwords_def example_defs splitlines_add splitlines_remove)

lemma example_synonyms:
  "load_synonym_map example_manager ''filter'' example_world
     = Inr [(Str ''kitties'', Str ''cats'')]"
  by (simp add: load_synonym_map_def example_defs to_dict_def)


text \<open>
  Claim C2. For every configuration of the eight flags, when the resources of the
  filters that are switched on can be loaded (the synonym map, the stop words, the
  minimal size), the builder returns the filters in the canonical order lower, synonym
  mapping, punctuation, whitespace, numeric, stop words, short words, lemmatize, and
  only those whose flag is true: a filter that is switched off is absent. The result is
  a function of the values of the flags, not of the place where the configuration sets
  them: the flags of the filters returned are the flags of the canonical order that the
  configuration sets to true.
\<close>

theorem build_custom_filter_list_order:
  assumes "getbool (configparser self) ''lower'' section = Inr b_lower"
    and "getbool (configparser self) ''map_synonym'' section = Inr b_map_synonym"
    and "getbool (configparser self) ''strip_punctuation'' section = Inr b_strip_punctuation"
    and "getbool (configparser self) ''strip_multiple_whitespaces'' section
           = Inr b_strip_multiple_whitespaces"
    and "getbool (configparser self) ''strip_numeric'' section = Inr b_strip_numeric"
    and "getbool (configparser self) ''remove_stopwords'' section = Inr b_remove_stopwords"
    and "getbool (configparser self) ''strip_short'' section = Inr b_strip_short"
    and "getbool (configparser self) ''lemmatize'' section = Inr b_lemmatize"
    and "b_map_synonym \<longrightarrow> load_synonym_map self section w = Inr map_table"
    and "b_remove_stopwords \<longrightarrow> generate_custom_stopwords lib self section w = Inr stopwords"
    and "b_strip_short \<longrightarrow>
           getint (configparser self) ''strip_short_minsize'' section = Inr minsize"
  shows "build_custom_filter_list lib self section w =
           Inr ((if b_lower then [Lower] else [])
                @ (if b_map_synonym then [MapSynonyms map_table] else [])
                @ (if b_strip_punctuation then [StripPunctuation] else [])
                @ (if b_strip_multiple_whitespaces then [StripMultipleWhitespaces] else [])
                @ (if b_strip_numeric then [StripNumeric] else [])
                @ (if b_remove_stopwords then [RemoveStopwords stopwords] else [])
                @ (if b_strip_short then [StripShort minsize] else [])
                @ (if b_lemmatize then [Lemmatize] else []))
         \<and> map flag_of
             ((if b_lower then [Lower] else [])
                @ (if b_map_synonym then [MapSynonyms map_table] else [])
                @ (if b_strip_punctuation then [StripPunctuation] else [])
                @ (if b_strip_multiple_whitespaces then [StripMultipleWhitespaces] else [])
                @ (if b_strip_numeric then [StripNumeric] else [])
                @ (if b_remove_stopwords then [RemoveStopwords stopwords] else [])
                @ (if b_strip_short then [StripShort minsize] else [])
                @ (if b_lemmatize then [Lemmatize] else []))
           = filter (\<lambda>key. getbool (configparser self) key section = Inr True)
               canonical_order"
proof -
  have b: "build_custom_filter_list lib self section w =
           Inr ((if b_lower then [Lower] else [])
                @ (if b_map_synonym then [MapSynonyms map_table] else [])
                @ (if b_strip_punctuation then [StripPunctuation] else [])
                @ (if b_strip_multiple_whitespaces then [StripMultipleWhitespaces] else [])
                @ (if b_strip_numeric then [StripNumeric] else [])
                @ (if b_remove_stopwords then [RemoveStopwords stopwords] else [])
                @ (if b_strip_short then [StripShort minsize] else [])
                @ (if b_lemmatize then [Lemmatize] else []))"
    using assms by (rule build_custom_filter_list_exact)
  from build_custom_filter_list_flags [OF b] b show ?thesis by blast
qed

theorem build_custom_filter_list_order_witness:
  "build_custom_filter_list example_lib example_manager ''filter'' example_world =
     Inr [Lower, MapSynonyms [(Str ''kitties'', Str ''cats'')], StripPunctuation,
          RemoveStopwords {''of'', ''the''}]
   \<and> filter (\<lambda>key. getbool (configparser example_manager) key ''filter'' = Inr True)
         canonical_order
       = [''lower'', ''map_synonym'', ''strip_punctuation'', ''remove_stopwords'']"
proof -
  have 1: "getbool (configparser example_manager) ''lower'' ''filter'' = Inr True"
    and 2: "getbool (configparser example_manager) ''map_synonym'' ''filter'' = Inr True"
    and 3: "getbool (configparser example_manager) ''strip_punctuation'' ''filter'' = Inr True"
    and 4: "getbool (configparser example_manager) ''strip_multiple_whitespaces'' ''filter''
              = Inr False"
    and 5: "getbool (configparser example_manager) ''strip_numeric'' ''filter'' = Inr False"
    and 6: "getbool (configparser example_manager) ''remove_stopwords'' ''filter'' = Inr True"
    and 7: "getbool (configparser example_manager) ''strip_short'' ''filter'' = Inr False"
    and 8: "getbool (configparser example_manager) ''lemmatize'' ''filter'' = Inr False"
    by (simp_all add: example_defs)
  have 9: "True \<longrightarrow> load_synonym_map example_manager ''filter'' example_world
              = Inr [(Str ''kitties'', Str ''cats'')]"
    using example_synonyms by simp
  have 10: "True \<longrightarrow> generate_custom_stopwords example_lib example_manager ''filter''
              example_world = Inr {''of'', ''the''}"
    using example_stopwords by simp
  have 11: "False \<longrightarrow>
      getint (configparser example_manager) ''strip_short_minsize'' ''filter'' = Inr 3"
    by simp
  from build_custom_filter_list_order [OF 1 2 3 4 5 6 7 8 9 10 11]
  show ?thesis by simp
qed

subsection \<open>The stop word filter and whitespace\<close>

lemma split_ws_Nil: "split_ws [] = []"
  by (simp add: split_ws.simps [of "[]"])

lemma split_ws_space: "is_space c \<Longrightarrow> split_ws (c # s) = split_ws s"
  by (simp add: split_ws.simps [of "c # s"] split_ws.simps [of s])

lemma split_ws_token:
  assumes "token x" and "rest = [] \<or> is_space (hd rest)"
  shows "split_ws (x @ rest) = x # split_ws rest"
proof -
  from assms(1) obtain c cs where x: "x = c # cs" and c: "\<not> is_space c"
    and cs: "\<forall>a\<in>set cs. \<not> is_space a"
    by (cases x) (auto simp: token_def list_all_iff)
  have d: "dropWhile is_space (x @ rest) = c # (cs @ rest)"
    using x c by simp
  have t: "takeWhile (\<lambda>a. \<not> is_space a) (c # (cs @ rest)) = x"
    using x c cs assms(2) by (cases rest) (auto simp: takeWhile_append2 takeWhile_tail)
  have r: "dropWhile (\<lambda>a. \<not> is_space a) (c # (cs @ rest)) = rest"
    using x c cs assms(2) by (cases rest) (auto simp: dropWhile_append2)
  show ?thesis
    by (simp add: split_ws.simps [of "x @ rest"] d t r del: takeWhile.simps dropWhile.simps)
qed

lemma split_ws_tokens: "list_all token (split_ws s)"
proof (induction s rule: split_ws.induct)
  case (1 s)
  show ?case
  proof (cases "dropWhile is_space s")
    case Nil
    have "split_ws s = []"
      by (subst split_ws.simps) (simp only: Nil list.case)
    then show ?thesis by simp
  next
    case (Cons c cs)
    have unfold: "split_ws s = takeWhile (\<lambda>x. \<not> is_space x) (c # cs)
        # split_ws (dropWhile (\<lambda>x. \<not> is_space x) (c # cs))"
      by (subst split_ws.simps) (simp only: Cons list.case)
    from Cons hd_dropWhile [of is_space s] have c: "\<not> is_space c" by simp
    have "token (takeWhile (\<lambda>x. \<not> is_space x) (c # cs))"
      using c by (auto simp: token_def list_all_iff dest: set_takeWhileD)
    moreover have "list_all token (split_ws (dropWhile (\<lambda>x. \<not> is_space x) (c # cs)))"
      using "1.IH" [OF Cons] .
    ultimately show ?thesis
      unfolding unfold by (simp del: takeWhile.simps dropWhile.simps)
  qed
qed

lemma join_not_Nil: "token x \<Longrightarrow> join sep (x # xs) \<noteq> []"
  by (cases xs) (auto simp: token_def)

lemma hd_join: "token x \<Longrightarrow> hd (join sep (x # xs)) = hd x"
  by (cases xs) (auto simp: token_def)

lemma split_ws_join:
  "list_all token ws \<Longrightarrow> split_ws (join '' '' ws) = ws"
proof (induction "'' ''" ws rule: join.induct)
  case 1
  show ?case by (simp add: split_ws_Nil)
next
  case (2 x)
  then show ?case using split_ws_token [of x "[]"] by (simp add: split_ws_Nil)
next
  case (3 x y ys)
  have sp: "is_space CHR '' ''" by (simp add: is_space_def)
  from 3 have "split_ws (join '' '' (y # ys)) = y # ys" by simp
  moreover have "split_ws (x @ CHR '' '' # join '' '' (y # ys))
      = x # split_ws (CHR '' '' # join '' '' (y # ys))"
    using 3(2) sp by (intro split_ws_token) simp_all
  ultimately show ?case using sp by (simp add: split_ws_space)
qed

lemma join_ends:
  "list_all token ws \<Longrightarrow> ws \<noteq> [] \<Longrightarrow>
     \<not> is_space (hd (join '' '' ws)) \<and> \<not> is_space (last (join '' '' ws))"
proof (induction "'' ''" ws rule: join.induct)
  case 1
  then show ?case by simp
next
  case (2 x)
  then have "x \<noteq> []" and "\<forall>c\<in>set x. \<not> is_space c"
    by (simp_all add: token_def list_all_iff)
  then show ?case using hd_in_set [of x] last_in_set [of x] by auto
next
  case (3 x y ys)
  then have x: "x \<noteq> []" "\<forall>c\<in>set x. \<not> is_space c" and y: "token y"
    by (simp_all add: token_def list_all_iff)
  from 3 have "\<not> is_space (last (join '' '' (y # ys)))" by simp
  moreover have "join '' '' (y # ys) \<noteq> []" using y by (rule join_not_Nil)
  ultimately show ?case using x hd_in_set [of x] by auto
qed

lemma join_spaces:
  "list_all token ws \<Longrightarrow> c \<in> set (join '' '' ws) \<Longrightarrow> is_space c \<Longrightarrow> c = CHR '' ''"
  by (induction "'' ''" ws rule: join.induct) (auto simp: token_def list_all_iff)

lemma join_no_runs:
  "list_all token ws \<Longrightarrow>
     successively (\<lambda>a b. \<not> (is_space a \<and> is_space b)) (join '' '' ws)"
proof (induction "'' ''" ws rule: join.induct)
  case 1
  show ?case by simp
next
  case (2 x)
  then have "\<forall>c\<in>set x. \<not> is_space c" by (simp add: token_def list_all_iff)
  then show ?case by (induction x rule: induct_list012) auto
next
  case (3 x y ys)
  then have x: "x \<noteq> []" "\<forall>c\<in>set x. \<not> is_space c" and y: "token y"
    by (simp_all add: token_def list_all_iff)
  have sx: "successively (\<lambda>a b. \<not> (is_space a \<and> is_space b)) x"
    using x(2) by (induction x rule: induct_list012) auto
  have ne: "join '' '' (y # ys) \<noteq> []" using y by (rule join_not_Nil)
  have hd: "\<not> is_space (hd (join '' '' (y # ys)))"
    using join_ends [of "y # ys"] 3(2) by simp
  have lx: "\<not> is_space (last x)" using x last_in_set [of x] by auto
  from 3 have IH: "successively (\<lambda>a b. \<not> (is_space a \<and> is_space b)) (join '' '' (y # ys))"
    by simp
  have "successively (\<lambda>a b. \<not> (is_space a \<and> is_space b))
          (x @ (CHR '' '' # join '' '' (y # ys)))"
    unfolding successively_append_iff
    using sx IH ne hd lx x(1) by (cases "join '' '' (y # ys)") auto
  then show ?case by simp
qed

text \<open>
  Claim C10. For every text and every set of stop words, the stop word filter returns
  the tokens of the text that are not stop words, joined by single blanks: the tokens
  of the result are exactly these tokens, the result neither begins nor ends with
  whitespace, no two whitespace characters stand side by side in it, and its only
  whitespace character is the blank. The function reads no configuration: as a filter
  of the chain it does so whether or not the whitespace filter is in the chain.
\<close>

theorem custom_remove_stopwords_single_spaces:
  "\<exists>r. custom_remove_stopwords (Str s) stopwords = Inr r
       \<and> run_filter lib (RemoveStopwords stopwords) s = Inr r
       \<and> r = join '' '' (filter (\<lambda>w. w \<notin> stopwords) (split_ws s))
       \<and> split_ws r = filter (\<lambda>w. w \<notin> stopwords) (split_ws s)
       \<and> (r \<noteq> [] \<longrightarrow> \<not> is_space (hd r) \<and> \<not> is_space (last r))
       \<and> successively (\<lambda>a b. \<not> (is_space a \<and> is_space b)) r
       \<and> (\<forall>c\<in>set r. is_space c \<longrightarrow> c = CHR '' '')"
proof -
  define ws where "ws = filter (\<lambda>w. w \<notin> stopwords) (split_ws s)"
  have t: "list_all token ws"
    using split_ws_tokens [of s] by (simp add: ws_def list_all_iff)
  have "custom_remove_stopwords (Str s) stopwords = Inr (join '' '' ws)"
    by (simp add: custom_remove_stopwords_def ws_def)
  moreover have "run_filter lib (RemoveStopwords stopwords) s = Inr (join '' '' ws)"
    by (simp add: custom_remove_stopwords_def ws_def)
  moreover have "split_ws (join '' '' ws) = ws" using t by (rule split_ws_join)
  moreover have "join '' '' ws \<noteq> [] \<longrightarrow>
      \<not> is_space (hd (join '' '' ws)) \<and> \<not> is_space (last (join '' '' ws))"
    using join_ends [OF t] by (cases ws) auto
  moreover have "successively (\<lambda>a b. \<not> (is_space a \<and> is_space b)) (join '' '' ws)"
    using t by (rule join_no_runs)
  moreover have "\<forall>c\<in>set (join '' '' ws). is_space c \<longrightarrow> c = CHR '' ''"
    using join_spaces [OF t] by blast
  ultimately show ?thesis unfolding ws_def by blast
qed

theorem custom_remove_stopwords_single_spaces_witness:
  "custom_remove_stopwords (Str [CHR '' '', CHR ''t'', CHR ''h'', CHR ''e'', CHR '' '', CHR '' '',
       CHR ''c'', CHR ''a'', CHR ''t'', CHR 0x09, CHR '' '', CHR ''s'', CHR ''a'', CHR ''t'',
       CHR 0x0A]) {''the''} = Inr ''cat sat''
   \<and> run_filter example_lib (RemoveStopwords {''the''})
        [CHR '' '', CHR ''t'', CHR ''h'', CHR ''e'', CHR '' '', CHR '' '',
         CHR ''c'', CHR ''a'', CHR ''t'', CHR 0x09, CHR '' '', CHR ''s'', CHR ''a'', CHR ''t'',
         CHR 0x0A] = Inr ''cat sat''
   \<and> split_ws ''cat sat'' = [''cat'', ''sat'']
   \<and> \<not> is_space (hd ''cat sat'') \<and> \<not> is_space (last ''cat sat'')
   \<and> successively (\<lambda>a b. \<not> (is_space a \<and> is_space b)) ''cat sat''"
proof -
  let ?s = "[CHR '' '', CHR ''t'', CHR ''h'', CHR ''e'', CHR '' '', CHR '' '',
       CHR ''c'', CHR ''a'', CHR ''t'', CHR 0x09, CHR '' '', CHR ''s'', CHR ''a'', CHR ''t'',
       CHR 0x0A]"
  have 1: "filter (\<lambda>w. w \<notin> {''the''}) (split_ws ?s) = [''cat'', ''sat'']"
    by code_simp
  have 2: "join '' '' [''cat'', ''sat''] = ''cat sat''" by simp
  from custom_remove_stopwords_single_spaces [of ?s "{''the''}" example_lib]
  obtain r where r: "custom_remove_stopwords (Str ?s) {''the''} = Inr r"
    "run_filter example_lib (RemoveStopwords {''the''}) ?s = Inr r"
    "r = join '' '' (filter (\<lambda>w. w \<notin> {''the''}) (split_ws ?s))"
    "split_ws r = filter (\<lambda>w. w \<notin> {''the''}) (split_ws ?s)"
    "r \<noteq> [] \<longrightarrow> \<not> is_space (hd r) \<and> \<not> is_space (last r)"
    "successively (\<lambda>a b. \<not> (is_space a \<and> is_space b)) r"
    by blast
  from r(3) have e: "r = ''cat sat''" unfolding 1 2 .
  from r(1,2,4,5,6) show ?thesis unfolding e 1 by simp
qed

subsection \<open>The preprocess operation\<close>























end
